theory Spec2Isabelle
  imports Main
begin

section \<open>Data model of \<open>src/App.jsx\<close>\<close>

text \<open>
  The component \<open>TicTacToeCanvasOnline\<close> keeps the game in six React state variables:
  \<open>n\<close>, \<open>board\<close>, \<open>turn\<close>, \<open>queues\<close>, \<open>nextLabel\<close> and \<open>win\<close>. Player ids are the
  numbers 1 and 2 (\<open>P1\<close>, \<open>P2\<close>); a board cell is \<open>null\<close> or an object
  \<open>{player, label}\<close>; \<open>queues\<close> and \<open>nextLabel\<close> are objects with the two keys 1 and 2,
  modelled as pairs read with \<open>at\<close> and written with \<open>put\<close>.
\<close>

datatype player = P1 | P2

record piece =
  player :: player
  label :: nat

record win_result =
  winner :: player
  line :: "nat list"

type_synonym cells = "piece option list"

record game_state =
  st_n :: nat
  board :: cells
  turn :: player
  queues :: "nat list \<times> nat list"
  nextLabel :: "nat \<times> nat"
  win :: "win_result option"

fun at :: "'a \<times> 'a \<Rightarrow> player \<Rightarrow> 'a" where
  "at (a, b) P1 = a"
| "at (a, b) P2 = b"

fun put :: "'a \<times> 'a \<Rightarrow> player \<Rightarrow> 'a \<Rightarrow> 'a \<times> 'a" where
  "put (a, b) P1 v = (v, b)"
| "put (a, b) P2 v = (a, v)"

text \<open>
  Reading \<open>board[i]\<close>: an index past the end of a JavaScript array reads \<open>undefined\<close>,
  which every test of the source (\<open>!board[i]\<close>, \<open>board[i] && ...\<close>) treats like \<open>null\<close>.
\<close>

definition cell :: "cells \<Rightarrow> nat \<Rightarrow> piece option" where
  "cell b i = (if i < length b then b ! i else None)"

text \<open>
  Writing \<open>b[i] = v\<close>: inside the array the element is replaced; past the end the array
  grows to length \<open>i + 1\<close>, the new elements before \<open>i\<close> being holes (read as empty).
\<close>

definition js_set :: "cells \<Rightarrow> nat \<Rightarrow> piece option \<Rightarrow> cells" where
  "js_set b i v =
     (if i < length b then b[i := v] else b @ replicate (i - length b) None @ [v])"

section \<open>Win detection (\<open>checkWin\<close>, lines 18--33)\<close>

definition idxAt :: "nat \<Rightarrow> nat \<Rightarrow> nat \<Rightarrow> nat" where
  "idxAt r c m = r * m + c"

text \<open>The first loop pushes, for each \<open>i\<close>, row \<open>i\<close> and then column \<open>i\<close>; two more
  pushes add the diagonal and the anti-diagonal.\<close>

definition lines :: "nat \<Rightarrow> nat list list" where
  "lines m =
     foldl (\<lambda>ls i. ls @ [map (\<lambda>j. idxAt i j m) [0..<m], map (\<lambda>j. idxAt j i m) [0..<m]])
       [] [0..<m]
     @ [map (\<lambda>j. idxAt j j m) [0..<m]]
     @ [map (\<lambda>j. idxAt j (m - 1 - j) m) [0..<m]]"

text \<open>
  The second loop. \<open>line[0]\<close> of an empty line is \<open>undefined\<close> and \<open>board[undefined]\<close> is
  \<open>undefined\<close>, so an empty line is skipped.
\<close>

fun scan :: "cells \<Rightarrow> nat list list \<Rightarrow> win_result option" where
  "scan b [] = None"
| "scan b (l # ls) =
     (case l of
        [] \<Rightarrow> scan b ls
      | i0 # _ \<Rightarrow>
          (case cell b i0 of
             None \<Rightarrow> scan b ls
           | Some first \<Rightarrow>
               if list_all (\<lambda>i. case cell b i of None \<Rightarrow> False
                                 | Some pc \<Rightarrow> player pc = player first) l
               then Some \<lparr>winner = player first, line = l\<rparr>
               else scan b ls))"

definition checkWin :: "cells \<Rightarrow> nat \<Rightarrow> win_result option" where
  "checkWin b m = scan b (lines m)"

text \<open>The specification's notion of a won line: every cell of the line is occupied by
  a piece of owner \<open>p\<close>, whatever its label.\<close>

definition owned_by :: "cells \<Rightarrow> player \<Rightarrow> nat list \<Rightarrow> bool" where
  "owned_by b p l = list_all (\<lambda>i. map_option player (cell b i) = Some p) l"

section \<open>The move engine (lines 215--252)\<close>

text \<open>
  A function declared in the component body reads the state variables of the render that
  created it. \<open>applyMove\<close> gives \<open>setBoard\<close> an updater, so React hands it the committed
  board (\<open>prev\<close>), and \<open>cycleLabelFor\<close> gives \<open>setNextLabel\<close> an updater over the committed
  counters; \<open>n\<close>, \<open>queues\<close> and the label read by \<open>cycleLabelFor\<close> are the render's.
  The functions below therefore take two states: \<open>cl\<close>, the state variables as the
  closure sees them, and \<open>cur\<close>, the committed state the setters act on. A click handler
  belongs to the latest render, so there both are the same state: \<open>applyMove s s\<close>.
\<close>

definition cycleLabelFor :: "game_state \<Rightarrow> game_state \<Rightarrow> player \<Rightarrow> nat \<times> (nat \<times> nat)" where
  "cycleLabelFor cl cur p =
     (let label = at (nextLabel cl) p;
          next = (if label \<ge> st_n cl then 1 else label + 1)
      in (label, put (nextLabel cur) p next))"

text \<open>
  \<open>removeOldestIfNeeded\<close> returns the shortened queue and clears the evicted cell of \<open>b\<close>
  in place; the model returns both. \<open>shift()\<close> on an empty array returns \<open>undefined\<close>, and
  \<open>b[undefined] = null\<close> touches no element.
\<close>

definition removeOldestIfNeeded :: "nat \<Rightarrow> player \<Rightarrow> cells \<Rightarrow> nat list \<times> nat list \<Rightarrow> cells \<times> nat list" where
  "removeOldestIfNeeded maxPieces forPlayer b q =
     (let qArr = at q forPlayer
      in if length qArr \<ge> maxPieces
         then (case qArr of [] \<Rightarrow> (b, []) | idx # rest \<Rightarrow> (js_set b idx None, rest))
         else (b, qArr))"

definition applyMove :: "game_state \<Rightarrow> game_state \<Rightarrow> nat \<Rightarrow> player \<Rightarrow> game_state" where
  "applyMove cl cur index p =
     (let (b1, qArr) = removeOldestIfNeeded (st_n cl) p (board cur) (queues cl);
          (label, labels) = cycleLabelFor cl cur p;
          b2 = js_set b1 index (Some \<lparr>player = p, label = label\<rparr>);
          newQ = put (queues cl) p (qArr @ [index]);
          res = checkWin b2 (st_n cl)
      in cur\<lparr>board := b2, queues := newQ, nextLabel := labels, win := res,
              turn := (if res = None then (if p = P1 then P2 else P1) else turn cur)\<rparr>)"

section \<open>The session: snapshot, hydration, reset and resize (lines 153--160, 333--361)\<close>

datatype mode = Local | Online

datatype role = Host | Guest

text \<open>The data connection in \<open>connRef.current\<close> (\<open>None\<close> for \<open>null\<close>), with PeerJS's
  \<open>open\<close> flag.\<close>

record conn =
  conn_open :: bool

text \<open>
  Messages on the wire. \<open>Attempt None\<close> is an attempt whose \<open>index\<close> is not a number; a
  numeric index is a natural number here (a negative or fractional index would be stored
  by JavaScript as a property beside the array's elements). \<open>StateMsg None\<close> carries a
  \<open>null\<close> or \<open>undefined\<close> payload.
\<close>

datatype message =
    Attempt "nat option"
  | StateMsg "game_state option"
  | SyncRequest
  | OtherMsg

record session =
  mode :: mode
  role :: "role option"
  iAm :: player
  connRef :: "conn option"

definition snapshotState :: "game_state \<Rightarrow> game_state" where
  "snapshotState s =
     \<lparr>st_n = st_n s, board = board s, turn = turn s, queues = queues s,
      nextLabel = nextLabel s, win = win s\<rparr>"

text \<open>\<open>hydrateFromState\<close> returns at once on a payload that is \<open>null\<close> or \<open>undefined\<close>
  (\<open>if (!s) return\<close>); otherwise it calls the six setters with the payload's fields.\<close>

definition hydrateFromState :: "game_state option \<Rightarrow> game_state \<Rightarrow> game_state" where
  "hydrateFromState snap cur =
     (case snap of
        None \<Rightarrow> cur
      | Some s \<Rightarrow> cur\<lparr>st_n := st_n s, board := board s, turn := turn s, queues := queues s,
                       nextLabel := nextLabel s, win := win s\<rparr>)"

text \<open>The calls of \<open>conn.send\<close> a function makes are returned as a list of messages.\<close>

definition broadcastState :: "conn option \<Rightarrow> game_state \<Rightarrow> message list" where
  "broadcastState c s =
     (case c of
        None \<Rightarrow> []
      | Some ch \<Rightarrow> if conn_open ch then [StateMsg (Some (snapshotState s))] else [])"

text \<open>The body of the effect with dependency list \<open>[n]\<close>.\<close>

definition resize_effect :: "game_state \<Rightarrow> game_state" where
  "resize_effect s =
     s\<lparr>board := (if st_n s = 3 then replicate 9 None else replicate 16 None),
       queues := ([], []), nextLabel := (1, 1), turn := P1, win := None\<rparr>"

text \<open>
  React applies the setter calls of one handler in one render (batching) and runs the
  effect after that render if \<open>n\<close> differs from the \<open>n\<close> of the render before; the
  effect's own setter calls then give the state that is shown.
\<close>

definition commit :: "game_state \<Rightarrow> game_state \<Rightarrow> game_state" where
  "commit old new = (if st_n new = st_n old then new else resize_effect new)"

text \<open>The size buttons call \<open>setN(3)\<close> and \<open>setN(4)\<close>.\<close>

definition setN :: "game_state \<Rightarrow> nat \<Rightarrow> game_state" where
  "setN s m = commit s (s\<lparr>st_n := m\<rparr>)"

text \<open>\<open>resetGame\<close> sets the five variables and then broadcasts; \<open>broadcastState\<close> reads the
  variables of the render in which the button was pressed.\<close>

definition resetGame :: "session \<Rightarrow> game_state \<Rightarrow> game_state \<times> message list" where
  "resetGame ses s =
     (s\<lparr>board := replicate (st_n s * st_n s) None, queues := ([], []), nextLabel := (1, 1),
        turn := P1, win := None\<rparr>,
      if mode ses = Online \<and> role ses = Some Host then broadcastState (connRef ses) s else [])"

text \<open>The values given to \<open>useState\<close>.\<close>

definition initial_state :: game_state where
  "initial_state =
     \<lparr>st_n = 3, board = replicate 9 None, turn = P1, queues = ([], []),
      nextLabel = (1, 1), win = None\<rparr>"

text \<open>The empty game of size \<open>m\<close>, as \<open>resetGame\<close> leaves it.\<close>

definition empty_state :: "nat \<Rightarrow> game_state" where
  "empty_state m =
     \<lparr>st_n = m, board = replicate (m * m) None, turn = P1, queues = ([], []),
      nextLabel = (1, 1), win = None\<rparr>"

section \<open>Clicks and messages (lines 175--213, 274--289, 319--324)\<close>

text \<open>
  A click outside the grid returns before an index is computed; inside, the handler
  computes a row and a column and the index \<open>idxAt(r, c, n)\<close>.
\<close>

datatype click = Outside | Cell nat nat

definition onCanvasClick :: "session \<Rightarrow> game_state \<Rightarrow> click \<Rightarrow> game_state \<times> message list" where
  "onCanvasClick ses s ev =
     (if win s \<noteq> None then (s, [])
      else if mode ses = Online \<and> turn s \<noteq> iAm ses then (s, [])
      else (case ev of
              Outside \<Rightarrow> (s, [])
            | Cell r c \<Rightarrow>
                (let index = idxAt r c (st_n s)
                 in if cell (board s) index \<noteq> None then (s, [])
                    else if mode ses = Online \<and> role ses = Some Guest
                    then (s, case connRef ses of None \<Rightarrow> [] | Some ch \<Rightarrow> [Attempt (Some index)])
                    else (applyMove s s index (turn s),
                          if mode ses = Online \<and> role ses = Some Host
                          then broadcastState (connRef ses) s else []))))"

text \<open>
  The host's data handler is registered once, inside \<open>createRoom\<close>: the \<open>turn\<close>, \<open>win\<close> and
  \<open>board\<close> it tests, and the \<open>applyMove\<close> and \<open>broadcastState\<close> it calls, are those of the
  render in which \<open>createRoom\<close> ran (\<open>cl\<close>); \<open>cur\<close> is the committed state when the message
  arrives and \<open>c\<close> the connection in \<open>connRef.current\<close>. The broadcast is deferred with
  \<open>setTimeout\<close>; it is returned with the handler's result.
\<close>

definition on_host_data :: "game_state \<Rightarrow> game_state \<Rightarrow> conn option \<Rightarrow> message \<Rightarrow> game_state \<times> message list" where
  "on_host_data cl cur c msg =
     (case msg of
        Attempt idx \<Rightarrow>
          (if turn cl \<noteq> P2 then (cur, [])
           else if win cl \<noteq> None then (cur, [])
           else (case idx of
                   None \<Rightarrow> (cur, [])
                 | Some i \<Rightarrow>
                     if cell (board cl) i = None
                     then (applyMove cl cur i P2, broadcastState c cl)
                     else (cur, [])))
      | SyncRequest \<Rightarrow> (cur, broadcastState c cl)
      | _ \<Rightarrow> (cur, []))"

definition on_guest_data :: "game_state \<Rightarrow> message \<Rightarrow> game_state" where
  "on_guest_data cur msg =
     (case msg of
        StateMsg payload \<Rightarrow> commit cur (hydrateFromState payload cur)
      | _ \<Rightarrow> cur)"

section \<open>Sequences of moves\<close>

text \<open>The preconditions the specification gives for \<open>applyMove\<close>.\<close>

definition legal :: "game_state \<Rightarrow> nat \<Rightarrow> bool" where
  "legal s index \<longleftrightarrow> win s = None \<and> index < st_n s * st_n s \<and> cell (board s) index = None"

text \<open>
  A sequence of moves, each a player and an index, applied one after the other by the
  latest render's \<open>applyMove\<close>; \<open>None\<close> when some move is not legal. Any player may make
  any move of the sequence: the callers, which pass the player whose turn it is, are a
  special case.
\<close>

fun play :: "game_state \<Rightarrow> (player \<times> nat) list \<Rightarrow> game_state option" where
  "play s [] = Some s"
| "play s ((p, i) # ms) = (if legal s i then play (applyMove s s i p) ms else None)"

text \<open>The pieces the moves of a sequence put on the board, in order: each is read from
  the cell it was written to.\<close>

fun placed :: "game_state \<Rightarrow> (player \<times> nat) list \<Rightarrow> piece list" where
  "placed s [] = []"
| "placed s ((p, i) # ms) =
     (case cell (board (applyMove s s i p)) i of None \<Rightarrow> [] | Some pc \<Rightarrow> [pc])
     @ placed (applyMove s s i p) ms"

section \<open>Auxiliary definitions\<close>

text \<open>The rows and columns in the order the first loop of \<open>checkWin\<close> pushes them.\<close>

definition rows_cols :: "nat \<Rightarrow> nat list list" where
  "rows_cols m = concat (map (\<lambda>i. [map (\<lambda>j. idxAt i j m) [0..<m], map (\<lambda>j. idxAt j i m) [0..<m]]) [0..<m])"

text \<open>The owner of a cell, and three properties of a state that every legal move keeps.\<close>

definition owner :: "cells \<Rightarrow> nat \<Rightarrow> player option" where
  "owner b i = map_option player (cell b i)"

definition queues_match_board :: "game_state \<Rightarrow> bool" where
  "queues_match_board s \<longleftrightarrow>
     distinct (at (queues s) P1) \<and> distinct (at (queues s) P2)
     \<and> (\<forall>i p. (i \<in> set (at (queues s) p)) = (owner (board s) i = Some p))"

definition labels_in_range :: "game_state \<Rightarrow> bool" where
  "labels_in_range s \<longleftrightarrow>
     0 < st_n s \<and> (\<forall>p. 1 \<le> at (nextLabel s) p \<and> at (nextLabel s) p \<le> st_n s)"

definition queues_bounded :: "game_state \<Rightarrow> bool" where
  "queues_bounded s \<longleftrightarrow> (\<forall>p. length (at (queues s) p) \<le> st_n s)"

subsection \<open>Example boards, states and sessions\<close>

text \<open>A board of size 3 on which player 1 holds the diagonal.\<close>

definition diag_board :: cells where
  "diag_board = [Some \<lparr>player = P1, label = 1\<rparr>, Some \<lparr>player = P2, label = 1\<rparr>,
         Some \<lparr>player = P2, label = 2\<rparr>, None, Some \<lparr>player = P1, label = 2\<rparr>, None,
         None, None, Some \<lparr>player = P1, label = 3\<rparr>]"

text \<open>Seven moves on the 3 by 3 board; the state after the first six, in which both
  queues are full; the state after all seven.\<close>

definition moves_seven :: "(player \<times> nat) list" where
  "moves_seven = [(P1, 0), (P2, 3), (P1, 1), (P2, 4), (P1, 5), (P2, 8), (P1, 2)]"

definition full_queues :: game_state where
  "full_queues =
     \<lparr>st_n = 3,
      board = [Some \<lparr>player = P1, label = 1\<rparr>, Some \<lparr>player = P1, label = 2\<rparr>, None,
               Some \<lparr>player = P2, label = 1\<rparr>, Some \<lparr>player = P2, label = 2\<rparr>,
               Some \<lparr>player = P1, label = 3\<rparr>, None, None,
               Some \<lparr>player = P2, label = 3\<rparr>],
      turn = P1, queues = ([0, 1, 5], [3, 4, 8]), nextLabel = (1, 1), win = None\<rparr>"

definition after_seven :: game_state where
  "after_seven =
     \<lparr>st_n = 3,
      board = [None, Some \<lparr>player = P1, label = 2\<rparr>, Some \<lparr>player = P1, label = 1\<rparr>,
               Some \<lparr>player = P2, label = 1\<rparr>, Some \<lparr>player = P2, label = 2\<rparr>,
               Some \<lparr>player = P1, label = 3\<rparr>, None, None,
               Some \<lparr>player = P2, label = 3\<rparr>],
      turn = P2, queues = ([1, 5, 2], [3, 4, 8]), nextLabel = (2, 1), win = None\<rparr>"

text \<open>Player 1 holds cells 0 and 4 and is to move: cell 8 completes the diagonal.\<close>

definition before_win :: game_state where
  "before_win =
     \<lparr>st_n = 3,
      board = [Some \<lparr>player = P1, label = 1\<rparr>, None, None,
               Some \<lparr>player = P2, label = 1\<rparr>, Some \<lparr>player = P1, label = 2\<rparr>,
               Some \<lparr>player = P2, label = 2\<rparr>, None, None, None],
      turn = P1, queues = ([0, 4], [3, 5]), nextLabel = (3, 3), win = None\<rparr>"

text \<open>The 3 by 3 game after player 1's first move at cell 0, and a 4 by 4 game after
  player 1's first move at cell 5.\<close>

definition after_first_move :: game_state where
  "after_first_move =
     \<lparr>st_n = 3,
      board = [Some \<lparr>player = P1, label = 1\<rparr>, None, None, None, None, None, None, None, None],
      turn = P2, queues = ([0], []), nextLabel = (2, 1), win = None\<rparr>"

definition snap_four :: game_state where
  "snap_four =
     \<lparr>st_n = 4,
      board = [None, None, None, None, None, Some \<lparr>player = P1, label = 1\<rparr>, None, None,
               None, None, None, None, None, None, None, None],
      turn = P2, queues = ([5], []), nextLabel = (2, 1), win = None\<rparr>"

text \<open>A guest whose connection exists and is not open.\<close>

definition guest_closed :: session where
  "guest_closed = \<lparr>mode = Online, role = Some Guest, iAm = P2,
                    connRef = Some \<lparr>conn_open = False\<rparr>\<rparr>"

text \<open>A host with an open connection.\<close>

definition host_open :: session where
  "host_open = \<lparr>mode = Online, role = Some Host, iAm = P1,
                 connRef = Some \<lparr>conn_open = True\<rparr>\<rparr>"

text \<open>
  An online game whose room is created in \<open>after_first_move\<close>: the guest's attempt at
  cell 1 is applied, the host clicks cell 4, the guest's attempt at cell 2 is applied,
  the host clicks cell 8 and completes the diagonal.
\<close>

definition guest_moved_once :: game_state where
  "guest_moved_once =
     \<lparr>st_n = 3,
      board = [Some \<lparr>player = P1, label = 1\<rparr>,
               Some \<lparr>player = P2, label = 1\<rparr>, None, None, None, None,
               None, None, None],
      turn = P1, queues = ([0], [1]), nextLabel = (2, 2), win = None\<rparr>"

definition host_moved_twice :: game_state where
  "host_moved_twice =
     \<lparr>st_n = 3,
      board = [Some \<lparr>player = P1, label = 1\<rparr>,
               Some \<lparr>player = P2, label = 1\<rparr>, None, None,
               Some \<lparr>player = P1, label = 2\<rparr>, None, None, None, None],
      turn = P2, queues = ([0, 4], [1]), nextLabel = (3, 2), win = None\<rparr>"

definition stale_second :: game_state where
  "stale_second =
     \<lparr>st_n = 3,
      board = [Some \<lparr>player = P1, label = 1\<rparr>,
               Some \<lparr>player = P2, label = 1\<rparr>,
               Some \<lparr>player = P2, label = 1\<rparr>, None,
               Some \<lparr>player = P1, label = 2\<rparr>, None, None, None, None],
      turn = P1, queues = ([0], [2]), nextLabel = (3, 2), win = None\<rparr>"

definition host_won :: game_state where
  "host_won =
     \<lparr>st_n = 3,
      board = [Some \<lparr>player = P1, label = 1\<rparr>,
               Some \<lparr>player = P2, label = 1\<rparr>,
               Some \<lparr>player = P2, label = 1\<rparr>, None,
               Some \<lparr>player = P1, label = 2\<rparr>, None, None, None,
               Some \<lparr>player = P1, label = 3\<rparr>],
      turn = P1, queues = ([0, 8], [2]), nextLabel = (1, 2),
      win = Some \<lparr>winner = P1, line = [0, 4, 8]\<rparr>\<rparr>"

text \<open>A room created in \<open>after_seven\<close>, after the guest's attempt at cell 6 is applied.\<close>

definition stale_full :: game_state where
  "stale_full =
     \<lparr>st_n = 3,
      board = [None, Some \<lparr>player = P1, label = 2\<rparr>,
               Some \<lparr>player = P1, label = 1\<rparr>, None,
               Some \<lparr>player = P2, label = 2\<rparr>,
               Some \<lparr>player = P1, label = 3\<rparr>,
               Some \<lparr>player = P2, label = 1\<rparr>, None,
               Some \<lparr>player = P2, label = 3\<rparr>],
      turn = P1, queues = ([1, 5, 2], [4, 8, 6]), nextLabel = (2, 2), win = None\<rparr>"

text \<open>Seven moves on the 4 by 4 board, and the state after them (player 2 to move).\<close>

definition moves_four :: "(player \<times> nat) list" where
  "moves_four = [(P1, 0), (P2, 4), (P1, 1), (P2, 5), (P1, 2), (P2, 6), (P1, 8)]"

definition four_mid :: game_state where
  "four_mid =
     \<lparr>st_n = 4,
      board = [Some \<lparr>player = P1, label = 1\<rparr>,
               Some \<lparr>player = P1, label = 2\<rparr>,
               Some \<lparr>player = P1, label = 3\<rparr>, None,
               Some \<lparr>player = P2, label = 1\<rparr>,
               Some \<lparr>player = P2, label = 2\<rparr>,
               Some \<lparr>player = P2, label = 3\<rparr>, None,
               Some \<lparr>player = P1, label = 4\<rparr>, None, None, None, None,
               None, None, None],
      turn = P2, queues = ([0, 1, 2, 8], [4, 5, 6]), nextLabel = (1, 4), win = None\<rparr>"

section \<open>The lines of \<open>checkWin\<close>\<close>

lemma foldl_push: "foldl (\<lambda>ls i. ls @ [f i, g i]) acc xs = acc @ concat (map (\<lambda>i. [f i, g i]) xs)"
  by (induction xs arbitrary: acc) simp_all

lemma length_pairs: "length (concat (map (\<lambda>i. [f i, g i]) xs)) = 2 * length xs"
  by (induction xs) simp_all

lemma nth_pairs:
  "i < length xs \<Longrightarrow> concat (map (\<lambda>i. [f i, g i]) xs) ! (2 * i) = f (xs ! i)
     \<and> concat (map (\<lambda>i. [f i, g i]) xs) ! (2 * i + 1) = g (xs ! i)"
proof (induction xs arbitrary: i)
  case Nil then show ?case by simp
next
  case (Cons x xs)
  show ?case
  proof (cases i)
    case 0 then show ?thesis by simp
  next
    case (Suc k)
    with Cons.prems have "k < length xs" by simp
    from Cons.IH[OF this] Suc show ?thesis by simp
  qed
qed

lemma lines_eq: "lines m = rows_cols m @ [map (\<lambda>j. idxAt j j m) [0..<m], map (\<lambda>j. idxAt j (m - 1 - j) m) [0..<m]]"
  by (simp add: lines_def rows_cols_def foldl_push)

lemma length_rows_cols: "length (rows_cols m) = 2 * m"
  by (simp add: rows_cols_def length_pairs)

lemma length_lines: "length (lines m) = 2 * m + 2"
  by (simp add: lines_eq length_rows_cols)

lemma rows_cols_nth:
  assumes "i < m"
  shows "rows_cols m ! (2 * i) = map (\<lambda>j. i * m + j) [0..<m]"
    and "rows_cols m ! (2 * i + 1) = map (\<lambda>j. j * m + i) [0..<m]"
  using assms
    nth_pairs[of i "[0..<m]" "\<lambda>i. map (\<lambda>j. idxAt i j m) [0..<m]" "\<lambda>i. map (\<lambda>j. idxAt j i m) [0..<m]"]
  by (simp_all add: rows_cols_def idxAt_def)

lemma lines_row: "i < m \<Longrightarrow> lines m ! (2 * i) = map (\<lambda>j. i * m + j) [0..<m]"
  by (simp only: lines_eq) (simp add: nth_append length_rows_cols rows_cols_nth(1))

lemma lines_col: "i < m \<Longrightarrow> lines m ! (2 * i + 1) = map (\<lambda>j. j * m + i) [0..<m]"
proof -
  assume "i < m"
  then have "2 * i + 1 < length (rows_cols m)" by (simp add: length_rows_cols)
  then have "lines m ! (2 * i + 1) = rows_cols m ! (2 * i + 1)"
    by (simp only: lines_eq nth_append if_True)
  with \<open>i < m\<close> show ?thesis by (simp only: rows_cols_nth(2))
qed

lemma lines_diag: "lines m ! (2 * m) = map (\<lambda>j. j * m + j) [0..<m]"
  by (simp add: lines_eq nth_append length_rows_cols idxAt_def)

lemma lines_anti: "lines m ! (2 * m + 1) = map (\<lambda>j. j * m + (m - 1 - j)) [0..<m]"
  by (simp add: lines_eq nth_append length_rows_cols idxAt_def)

lemma lines_nonempty: "0 < m \<Longrightarrow> l \<in> set (lines m) \<Longrightarrow> l \<noteq> []"
  by (auto simp: lines_eq rows_cols_def)

text \<open>The test of the second loop is the specification's \<open>owned_by\<close>, for the owner of the
  line's first cell.\<close>

lemma cell_owner_iff:
  "(case c of None \<Rightarrow> False | Some pc \<Rightarrow> player pc = p)
     = (map_option player c = Some p)"
  by (cases c) auto

lemma line_test_owned_by:
  "list_all (\<lambda>i. case cell b i of None \<Rightarrow> False | Some pc \<Rightarrow> player pc = p) l
     = owned_by b p l"
  by (simp only: owned_by_def cell_owner_iff)

lemma owned_by_first:
  "owned_by b p (i0 # l) \<Longrightarrow> \<exists>first. cell b i0 = Some first \<and> player first = p"
  by (auto simp: owned_by_def)

text \<open>What the second loop returns on a list of non-empty lines.\<close>

lemma scan_None:
  "\<forall>l\<in>set ls. l \<noteq> [] \<Longrightarrow>
   (scan b ls = None) = (\<forall>l\<in>set ls. \<forall>p. \<not> owned_by b p l)"
proof (induction ls)
  case Nil then show ?case by simp
next
  case (Cons l ls)
  then obtain i0 r where l: "l = i0 # r" by (cases l) auto
  from Cons have IH: "(scan b ls = None) = (\<forall>l\<in>set ls. \<forall>p. \<not> owned_by b p l)" by simp
  show ?case
  proof (cases "cell b i0")
    case None
    then have "\<forall>p. \<not> owned_by b p l" using owned_by_first[of b _ i0 r] l by auto
    with None IH l show ?thesis by simp
  next
    case (Some first)
    show ?thesis
    proof (cases "owned_by b (player first) l")
      case True
      with Some l show ?thesis by (auto simp: line_test_owned_by)
    next
      case False
      have "\<forall>p. \<not> owned_by b p l"
      proof (intro allI notI)
        fix p assume "owned_by b p l"
        with owned_by_first[of b p i0 r] l Some False show False by auto
      qed
      with False Some l IH show ?thesis by (simp add: line_test_owned_by)
    qed
  qed
qed

lemma scan_Some:
  "\<forall>l\<in>set ls. l \<noteq> [] \<Longrightarrow> scan b ls = Some w \<Longrightarrow>
   \<exists>k<length ls. line w = ls ! k \<and> owned_by b (winner w) (ls ! k)
      \<and> (\<forall>j<k. \<forall>p. \<not> owned_by b p (ls ! j))"
proof (induction ls)
  case Nil then show ?case by simp
next
  case (Cons l ls)
  then obtain i0 r where l: "l = i0 # r" by (cases l) auto
  show ?case
  proof (cases "\<exists>p. owned_by b p l")
    case True
    then obtain p where p: "owned_by b p l" ..
    with owned_by_first[of b p i0 r] l obtain first where
      f: "cell b i0 = Some first" "player first = p" by auto
    with p l Cons.prems(2) have "w = \<lparr>winner = p, line = l\<rparr>"
      by (simp add: line_test_owned_by)
    with p have "line w = (l # ls) ! 0 \<and> owned_by b (winner w) ((l # ls) ! 0)
        \<and> (\<forall>j<0. \<forall>p. \<not> owned_by b p ((l # ls) ! j))" by simp
    then show ?thesis by blast
  next
    case False
    then have nl: "\<forall>p. \<not> owned_by b p l" by simp
    have "scan b (l # ls) = scan b ls"
    proof (cases "cell b i0")
      case None with l show ?thesis by simp
    next
      case (Some first)
      with nl l show ?thesis by (simp add: line_test_owned_by)
    qed
    with Cons.prems have "scan b ls = Some w" by simp
    with Cons.IH Cons.prems(1) obtain k where k: "k < length ls" "line w = ls ! k"
      "owned_by b (winner w) (ls ! k)" "\<forall>j<k. \<forall>p. \<not> owned_by b p (ls ! j)" by auto
    have "\<forall>j<Suc k. \<forall>p. \<not> owned_by b p ((l # ls) ! j)"
    proof (intro allI impI)
      fix j p assume "j < Suc k"
      then show "\<not> owned_by b p ((l # ls) ! j)" using nl k(4) by (cases j) auto
    qed
    with k have "Suc k < length (l # ls) \<and> line w = (l # ls) ! Suc k
       \<and> owned_by b (winner w) ((l # ls) ! Suc k)
       \<and> (\<forall>j<Suc k. \<forall>p. \<not> owned_by b p ((l # ls) ! j))" by simp
    then show ?thesis by blast
  qed
qed

section \<open>Reading and writing cells; the fields after a move\<close>

lemma cell_js_set: "cell (js_set b i v) j = (if j = i then v else cell b j)"
  by (auto simp: cell_def js_set_def nth_append)

lemma owner_js_set: "owner (js_set b i v) j = (if j = i then map_option player v else owner b j)"
  by (simp add: owner_def cell_js_set)

lemma at_put: "at (put q p v) r = (if r = p then v else at q r)"
  by (cases q; cases p; cases r) simp_all

lemma removeOldest_cases:
  "removeOldestIfNeeded m p b q =
     (if m \<le> length (at q p) \<and> at q p \<noteq> []
      then (js_set b (hd (at q p)) None, tl (at q p)) else (b, at q p))"
  by (cases "at q p") (simp_all add: removeOldestIfNeeded_def Let_def)

lemma applyMove_n: "st_n (applyMove cl cur i p) = st_n cur"
  by (simp add: applyMove_def Let_def split: prod.splits)

lemma applyMove_board:
  "board (applyMove s s i p) =
     js_set (if st_n s \<le> length (at (queues s) p) \<and> at (queues s) p \<noteq> []
             then js_set (board s) (hd (at (queues s) p)) None else board s)
       i (Some \<lparr>player = p, label = at (nextLabel s) p\<rparr>)"
  by (simp add: applyMove_def removeOldest_cases cycleLabelFor_def Let_def split: prod.splits)

lemma applyMove_queues:
  "queues (applyMove s s i p) =
     put (queues s) p
       ((if st_n s \<le> length (at (queues s) p) \<and> at (queues s) p \<noteq> []
         then tl (at (queues s) p) else at (queues s) p) @ [i])"
  by (simp add: applyMove_def removeOldest_cases cycleLabelFor_def Let_def split: prod.splits)

lemma applyMove_nextLabel:
  "nextLabel (applyMove s s i p) =
     put (nextLabel s) p (if st_n s \<le> at (nextLabel s) p then 1 else at (nextLabel s) p + 1)"
  by (simp add: applyMove_def removeOldest_cases cycleLabelFor_def Let_def split: prod.splits)

lemma applyMove_win:
  "win (applyMove s s i p) = checkWin (board (applyMove s s i p)) (st_n s)"
  by (simp add: applyMove_def removeOldest_cases cycleLabelFor_def Let_def split: prod.splits)

lemma applyMove_turn:
  "turn (applyMove s s i p) =
     (if checkWin (board (applyMove s s i p)) (st_n s) = None
      then (if p = P1 then P2 else P1) else turn s)"
  by (simp add: applyMove_def removeOldest_cases cycleLabelFor_def Let_def split: prod.splits)

lemma applyMove_cell_placed:
  "cell (board (applyMove s s i p)) i = Some \<lparr>player = p, label = at (nextLabel s) p\<rparr>"
  by (simp add: applyMove_board cell_js_set)

section \<open>Snapshots, reset and the initial state\<close>

lemma snapshotState_id: "snapshotState s = s"
  by (simp add: snapshotState_def)

lemma resetGame_empty: "fst (resetGame ses s) = empty_state (st_n s)"
  by (simp add: resetGame_def empty_state_def)

lemma initial_empty: "initial_state = empty_state 3"
  by (simp add: initial_state_def empty_state_def)

lemma setN_3: "st_n s \<noteq> 3 \<Longrightarrow> setN s 3 = empty_state 3"
  by (simp add: setN_def commit_def resize_effect_def empty_state_def)

lemma setN_4: "st_n s \<noteq> 4 \<Longrightarrow> setN s 4 = empty_state 4"
  by (simp add: setN_def commit_def resize_effect_def empty_state_def)

lemma hydrateFromState_replaces: "hydrateFromState (Some t) s = t"
  by (simp add: hydrateFromState_def)

lemma hydrate_same_size:
  "st_n t = st_n s \<Longrightarrow> snapshotState (on_guest_data s (StateMsg (Some t))) = t"
  by (simp add: on_guest_data_def hydrateFromState_def commit_def snapshotState_id)

lemma broadcastState_guarded:
  "broadcastState c s = (if c = Some \<lparr>conn_open = True\<rparr> then [StateMsg (Some s)] else [])"
  by (cases c) (auto simp: broadcastState_def snapshotState_id)

section \<open>Sequences of legal moves\<close>

lemma legal_size: "legal s i \<Longrightarrow> 0 < st_n s"
  by (cases "st_n s") (simp_all add: legal_def)

lemma play_n: "play s ms = Some s' \<Longrightarrow> st_n s' = st_n s"
proof (induction ms arbitrary: s)
  case Nil then show ?case by simp
next
  case (Cons a ms)
  obtain p i where a: "a = (p, i)" by (cases a)
  with Cons.prems have "play (applyMove s s i p) ms = Some s'" by (simp split: if_splits)
  from Cons.IH[OF this] show ?case by (simp add: applyMove_n)
qed

lemma play_preserves:
  assumes step: "\<And>t i p. P t \<Longrightarrow> legal t i \<Longrightarrow> P (applyMove t t i p)"
  shows "P s \<Longrightarrow> play s ms = Some s' \<Longrightarrow> P s'"
proof (induction ms arbitrary: s)
  case Nil then show ?case by simp
next
  case (Cons a ms)
  obtain p i where a: "a = (p, i)" by (cases a)
  with Cons.prems have l: "legal s i" and r: "play (applyMove s s i p) ms = Some s'"
    by (simp_all split: if_splits)
  from step[OF Cons.prems(1) l] have "P (applyMove s s i p)" .
  from Cons.IH[OF this r] show ?case .
qed

lemma play_take:
  "play s ms = Some s' \<Longrightarrow> \<exists>sk. play s (take k ms) = Some sk"
proof (induction ms arbitrary: s k)
  case Nil then show ?case by simp
next
  case (Cons a ms)
  obtain p i where a: "a = (p, i)" by (cases a)
  with Cons.prems have l: "legal s i" and r: "play (applyMove s s i p) ms = Some s'"
    by (simp_all split: if_splits)
  show ?case
  proof (cases k)
    case 0 then show ?thesis by simp
  next
    case (Suc k')
    from Cons.IH[OF r, of k'] a l Suc show ?thesis by simp
  qed
qed

subsection \<open>Queue lengths\<close>

lemma queues_bounded_step:
  assumes "queues_bounded s" "legal s i"
  shows "queues_bounded (applyMove s s i p)"
proof -
  from assms(2) have n: "0 < st_n s" by (rule legal_size)
  have "length (at (queues (applyMove s s i p)) r) \<le> st_n s" for r
  proof (cases "r = p")
    case False
    with assms(1) show ?thesis by (simp add: applyMove_queues at_put queues_bounded_def)
  next
    case True
    from assms(1) have "length (at (queues s) p) \<le> st_n s" by (simp add: queues_bounded_def)
    with True n show ?thesis by (auto simp: applyMove_queues at_put)
  qed
  then show ?thesis by (simp add: queues_bounded_def applyMove_n)
qed

lemma queues_bounded_empty: "queues_bounded (empty_state m)"
proof -
  have "length (at (queues (empty_state m)) p) \<le> m" for p
    by (cases p) (simp_all add: empty_state_def)
  then show ?thesis by (simp add: queues_bounded_def empty_state_def)
qed

subsection \<open>Queues and occupied cells\<close>

lemma queues_match_step:
  assumes inv: "queues_match_board s" and l: "legal s i"
  shows "queues_match_board (applyMove s s i p)"
proof -
  let ?q = "at (queues s) p"
  let ?ev = "st_n s \<le> length ?q \<and> ?q \<noteq> []"
  let ?q' = "(if ?ev then tl ?q else ?q) @ [i]"
  from inv have mem: "\<And>j r. (j \<in> set (at (queues s) r)) = (owner (board s) j = Some r)"
    and dist: "\<And>r. distinct (at (queues s) r)"
    by (simp add: queues_match_board_def, (case_tac r; simp add: queues_match_board_def))
  from l have empty: "owner (board s) i = None" by (simp add: legal_def owner_def)
  have i_notin: "i \<notin> set (at (queues s) r)" for r using mem[of i r] empty by simp
  have own': "owner (board (applyMove s s i p)) j =
      (if j = i then Some p else if ?ev \<and> j = hd ?q then None else owner (board s) j)" for j
    by (simp add: applyMove_board owner_js_set)
  have qp: "at (queues (applyMove s s i p)) p = ?q'" by (simp add: applyMove_queues at_put)
  have qr: "r \<noteq> p \<Longrightarrow> at (queues (applyMove s s i p)) r = at (queues s) r" for r
    by (simp add: applyMove_queues at_put)
  have tl_set: "?q \<noteq> [] \<Longrightarrow> set (tl ?q) = set ?q - {hd ?q}"
    using dist[of p] by (cases ?q) auto
  have dq': "distinct ?q'"
    using dist[of p] i_notin[of p] by (auto simp: distinct_tl dest: list.set_sel(2))
  have d: "distinct (at (queues (applyMove s s i p)) r)" for r
    by (cases "r = p") (simp_all add: qp qr dq' dist del: distinct_append)
  have m: "(j \<in> set (at (queues (applyMove s s i p)) r)) = (owner (board (applyMove s s i p)) j = Some r)"
    for j r
  proof (cases "r = p")
    case True
    show ?thesis
    proof (cases ?ev)
      case True
      with \<open>r = p\<close> tl_set mem[of j p] show ?thesis by (auto simp: qp own')
    next
      case False
      with \<open>r = p\<close> mem[of j p] show ?thesis by (auto simp: qp own')
    qed
  next
    case False
    have "?q \<noteq> [] \<Longrightarrow> owner (board s) (hd ?q) = Some p" using mem[of "hd ?q" p] by simp
    with False mem[of j r] i_notin[of r] show ?thesis by (auto simp: qr own')
  qed
  from d[of P1] d[of P2] m show ?thesis by (simp add: queues_match_board_def)
qed

lemma queues_match_empty: "queues_match_board (empty_state m)"
proof -
  have "owner (board (empty_state m)) i = None" for i
    by (simp add: owner_def cell_def empty_state_def)
  moreover have "at (queues (empty_state m)) p = []" for p
    by (cases p) (simp_all add: empty_state_def)
  ultimately show ?thesis by (simp add: queues_match_board_def)
qed

subsection \<open>Labels\<close>

lemma labels_in_range_step:
  assumes "labels_in_range s"
  shows "labels_in_range (applyMove s s i p)"
proof -
  from assms have n: "0 < st_n s"
    and r: "\<And>q. 1 \<le> at (nextLabel s) q \<and> at (nextLabel s) q \<le> st_n s"
    by (simp_all add: labels_in_range_def)
  have "1 \<le> at (nextLabel (applyMove s s i p)) q
      \<and> at (nextLabel (applyMove s s i p)) q \<le> st_n s" for q
    using r[of q] r[of p] n by (auto simp: applyMove_nextLabel at_put)
  with n show ?thesis by (simp add: labels_in_range_def applyMove_n)
qed

lemma labels_in_range_empty: "0 < m \<Longrightarrow> labels_in_range (empty_state m)"
proof -
  assume m: "0 < m"
  have "at (nextLabel (empty_state m)) p = 1" for p
    by (cases p) (simp_all add: empty_state_def)
  with m show ?thesis by (simp add: labels_in_range_def empty_state_def)
qed

lemma placed_players: "map player (placed s ms) = map fst ms"
proof (induction ms arbitrary: s)
  case Nil then show ?case by simp
next
  case (Cons a ms)
  obtain p i where a: "a = (p, i)" by (cases a)
  with Cons.IH[of "applyMove s s i p"] show ?case by (simp add: applyMove_cell_placed)
qed

lemma placed_labels:
  "labels_in_range s \<Longrightarrow>
   k < length (filter (\<lambda>pc. player pc = p) (placed s ms)) \<Longrightarrow>
   label (filter (\<lambda>pc. player pc = p) (placed s ms) ! k)
     = (at (nextLabel s) p - 1 + k) mod st_n s + 1"
proof (induction ms arbitrary: s k)
  case Nil then show ?case by simp
next
  case (Cons a ms)
  obtain q i where a: "a = (q, i)" by (cases a)
  let ?s1 = "applyMove s s i q"
  let ?c = "at (nextLabel s) p"
  from Cons.prems(1) have n: "0 < st_n s" and c: "1 \<le> ?c" "?c \<le> st_n s"
    by (simp_all add: labels_in_range_def)
  have r1: "labels_in_range ?s1" using Cons.prems(1) by (rule labels_in_range_step)
  have n1: "st_n ?s1 = st_n s" by (rule applyMove_n)
  show ?case
  proof (cases "q = p")
    case False
    then have f: "filter (\<lambda>pc. player pc = p) (placed s (a # ms))
        = filter (\<lambda>pc. player pc = p) (placed ?s1 ms)"
      by (simp add: a applyMove_cell_placed)
    have l: "at (nextLabel ?s1) p = ?c" using False by (simp add: applyMove_nextLabel at_put)
    from Cons.IH[OF r1, of k] Cons.prems(2) show ?thesis by (simp only: f l n1)
  next
    case True
    then have f: "filter (\<lambda>pc. player pc = p) (placed s (a # ms))
        = \<lparr>player = p, label = ?c\<rparr> # filter (\<lambda>pc. player pc = p) (placed ?s1 ms)"
      by (simp add: a applyMove_cell_placed)
    show ?thesis
    proof (cases k)
      case 0
      with c n show ?thesis by (simp add: f)
    next
      case (Suc k')
      with Cons.prems(2) have k': "k' < length (filter (\<lambda>pc. player pc = p) (placed ?s1 ms))"
        by (simp add: f)
      have l: "at (nextLabel ?s1) p = (if st_n s \<le> ?c then 1 else ?c + 1)"
        using True by (simp add: applyMove_nextLabel at_put)
      have "(at (nextLabel ?s1) p - 1 + k') mod st_n s = (?c - 1 + Suc k') mod st_n s"
      proof (cases "st_n s \<le> ?c")
        case True
        with c have "?c = st_n s" by simp
        with l n show ?thesis by simp
      next
        case False
        with l c show ?thesis by simp
      qed
      with Cons.IH[OF r1 k'] Suc show ?thesis by (simp add: f n1)
    qed
  qed
qed

subsection \<open>The example states are reached by play\<close>

lemma play_moves_seven: "play (empty_state 3) moves_seven = Some after_seven"
  by code_simp

lemma play_take_six: "play (empty_state 3) (take 6 moves_seven) = Some full_queues"
  by code_simp

lemma after_first_move_played: "play (empty_state 3) [(P1, 0)] = Some after_first_move"
  by code_simp

lemma snap_four_played: "play (empty_state 4) [(P1, 5)] = Some snap_four"
  by code_simp

section \<open>The host's handling of an attempt\<close>

text \<open>
  What the handler does with an attempt: it applies the move as player 2 and broadcasts
  exactly when the index is a number, the closure's \<open>turn\<close> is 2, its \<open>win\<close> is \<open>null\<close> and
  its \<open>board[index]\<close> is empty. The index is not compared with the size of the board.
\<close>

lemma on_host_data_attempt:
  "on_host_data cl cur c (Attempt idx) =
     (case idx of
        Some i \<Rightarrow>
          if turn cl = P2 \<and> win cl = None \<and> cell (board cl) i = None
          then (applyMove cl cur i P2, broadcastState c cl) else (cur, [])
      | None \<Rightarrow> (cur, []))"
  by (simp add: on_host_data_def split: option.splits)

text \<open>
  Claim C1. The claim: the Authority applies an \<open>Attempt{index}\<close> and broadcasts if and only
  if the turn is the Follower's, \<open>win\<close> is none, \<open>0 \<le> index < n\<^sup>2\<close> and \<open>board[index]\<close> is
  empty; otherwise its state is unchanged. The handler evaluated on the 3 by 3 game after
  player 1's first move (as the handler's closure and as the committed state), the
  connection open, the message \<open>Attempt{index: 9}\<close>: the turn is 2, \<open>win\<close> is none, cell 9
  reads as empty, and 9 is not below \<open>n\<^sup>2 = 9\<close>; yet the move is applied: the board grows
  to ten cells, the queue of player 2 becomes \<open>[9]\<close>, the turn passes to player 1, and one
  state message is sent.
\<close>

theorem attempt_out_of_range_applied:
  "turn after_first_move = P2 \<and> win after_first_move = None
   \<and> cell (board after_first_move) 9 = None
   \<and> \<not> 9 < st_n after_first_move * st_n after_first_move
   \<and> fst (on_host_data after_first_move after_first_move (Some \<lparr>conn_open = True\<rparr>)
            (Attempt (Some 9)))
      = \<lparr>st_n = 3,
         board = [Some \<lparr>player = P1, label = 1\<rparr>, None, None, None, None, None, None, None,
                  None, Some \<lparr>player = P2, label = 1\<rparr>],
         turn = P1, queues = ([0], [9]), nextLabel = (2, 2), win = None\<rparr>
   \<and> fst (on_host_data after_first_move after_first_move (Some \<lparr>conn_open = True\<rparr>)
            (Attempt (Some 9))) \<noteq> after_first_move
   \<and> length (snd (on_host_data after_first_move after_first_move (Some \<lparr>conn_open = True\<rparr>)
            (Attempt (Some 9)))) = 1"
  by code_simp

text \<open>
  The handler tests the state of the render in which the room was created. A room created
  in the initial state (turn 1) discards every attempt, also one that is legal in the
  committed state and made on player 2's turn.
\<close>

lemma attempt_discarded_by_stale_turn:
  "turn after_first_move = P2 \<and> win after_first_move = None \<and> legal after_first_move 4
   \<and> on_host_data initial_state after_first_move (Some \<lparr>conn_open = True\<rparr>) (Attempt (Some 4))
      = (after_first_move, [])"
  by code_simp

section \<open>Hydration\<close>

text \<open>
  Claim C2. The claim: \<open>hydrate(s)\<close> followed by \<open>snapshot()\<close> yields \<open>s\<close>, also when the \<open>n\<close>
  of \<open>s\<close> differs from the session's. A guest in the initial state (\<open>n = 3\<close>) receives the
  snapshot of a 4 by 4 game with a piece of player 1 on cell 5: \<open>hydrateFromState\<close> sets
  the six variables, \<open>n\<close> has changed, the resize effect runs and empties the game. The
  snapshot taken afterwards is the empty 4 by 4 game, not the snapshot received.
  (\<open>hydrate_same_size\<close> above: with equal \<open>n\<close> the snapshot is returned unchanged.)
\<close>

theorem hydrate_other_size_resets:
  "st_n snap_four \<noteq> st_n initial_state
   \<and> hydrateFromState (Some snap_four) initial_state = snap_four
   \<and> on_guest_data initial_state (StateMsg (Some snap_four)) = empty_state 4
   \<and> snapshotState (on_guest_data initial_state (StateMsg (Some snap_four))) \<noteq> snap_four
   \<and> cell (board snap_four) 5 = Some \<lparr>player = P1, label = 1\<rparr>
   \<and> cell (board (on_guest_data initial_state (StateMsg (Some snap_four)))) 5 = None"
  by code_simp

section \<open>Win detection\<close>

text \<open>
  Claim C3. For a board size \<open>m > 0\<close>, \<open>checkWin\<close> goes through \<open>2m + 2\<close> lines: line \<open>2i\<close> is
  row \<open>i\<close> and line \<open>2i + 1\<close> is column \<open>i\<close> (for \<open>i < m\<close>), line \<open>2m\<close> is the main diagonal
  and line \<open>2m + 1\<close> the anti-diagonal. It returns none exactly when no line is wholly
  occupied by the pieces of one owner; otherwise it returns the first such line in that
  order, with that owner as the winner. Labels play no part (\<open>owned_by\<close> reads only the
  owner of a cell).
\<close>

theorem checkWin_first_complete_line:
  "0 < m \<Longrightarrow>
   length (lines m) = 2 * m + 2
   \<and> (\<forall>i<m. lines m ! (2 * i) = map (\<lambda>j. i * m + j) [0..<m]
            \<and> lines m ! (2 * i + 1) = map (\<lambda>j. j * m + i) [0..<m])
   \<and> lines m ! (2 * m) = map (\<lambda>j. j * m + j) [0..<m]
   \<and> lines m ! (2 * m + 1) = map (\<lambda>j. j * m + (m - 1 - j)) [0..<m]
   \<and> ((checkWin b m = None) = (\<forall>k<2 * m + 2. \<forall>p. \<not> owned_by b p (lines m ! k)))
   \<and> (\<forall>w. checkWin b m = Some w \<longrightarrow>
        (\<exists>k<2 * m + 2. line w = lines m ! k \<and> owned_by b (winner w) (line w)
           \<and> (\<forall>j<k. \<forall>p. \<not> owned_by b p (lines m ! j))))"
proof -
  assume m: "0 < m"
  then have ne: "\<forall>l\<in>set (lines m). l \<noteq> []" using lines_nonempty by blast
  have len: "length (lines m) = 2 * m + 2" by (rule length_lines)
  have none: "(checkWin b m = None) = (\<forall>k<2 * m + 2. \<forall>p. \<not> owned_by b p (lines m ! k))"
    unfolding checkWin_def scan_None[OF ne] len[symmetric]
    by (metis in_set_conv_nth)
  have some: "\<forall>w. checkWin b m = Some w \<longrightarrow>
        (\<exists>k<2 * m + 2. line w = lines m ! k \<and> owned_by b (winner w) (line w)
           \<and> (\<forall>j<k. \<forall>p. \<not> owned_by b p (lines m ! j)))"
  proof (intro allI impI)
    fix w assume "checkWin b m = Some w"
    then have "scan b (lines m) = Some w" by (simp add: checkWin_def)
    from scan_Some[OF ne this] show "\<exists>k<2 * m + 2. line w = lines m ! k
        \<and> owned_by b (winner w) (line w) \<and> (\<forall>j<k. \<forall>p. \<not> owned_by b p (lines m ! j))"
      unfolding len by auto
  qed
  have rc: "\<forall>i<m. lines m ! (2 * i) = map (\<lambda>j. i * m + j) [0..<m]
            \<and> lines m ! (2 * i + 1) = map (\<lambda>j. j * m + i) [0..<m]"
    using lines_row lines_col by blast
  from len rc lines_diag[of m] lines_anti[of m] none some show ?thesis
    by (intro conjI)
qed

theorem checkWin_first_complete_line_witness:
  "0 < (3::nat) \<and> length (lines 3) = 8 \<and> lines 3 ! 6 = [0, 4, 8]
   \<and> checkWin diag_board 3 = Some \<lparr>winner = P1, line = [0, 4, 8]\<rparr>
   \<and> owned_by diag_board P1 [0, 4, 8] \<and> \<not> owned_by diag_board P1 (lines 3 ! 0)"
proof -
  have m: "0 < (3::nat)" by simp
  from checkWin_first_complete_line[OF m, of diag_board]
  have len: "length (lines 3) = 2 * 3 + 2" by (rule conjunct1)
  have l6: "lines 3 ! 6 = [0, 4, 8]" by code_simp
  have w: "checkWin diag_board 3 = Some \<lparr>winner = P1, line = [0, 4, 8]\<rparr>" by code_simp
  have o: "owned_by diag_board P1 [0, 4, 8]" by code_simp
  have n: "\<not> owned_by diag_board P1 (lines 3 ! 0)" by code_simp
  from m len l6 w o n show ?thesis by simp
qed

section \<open>Moves made by the latest render\<close>

text \<open>
  The lemmas of this section and the next are about \<open>applyMove s s\<close>: the closure's state
  is the committed state, as it is for a click, whose handler belongs to the latest
  render. They do not cover the moves the host's data handler applies for the guest.
\<close>

text \<open>
  Eviction. In a state in which the move at \<open>i\<close> is legal (no win, \<open>i < n\<^sup>2\<close>, cell \<open>i\<close>
  empty): if the queue of the moving player \<open>p\<close> has at least \<open>n\<close> entries, \<open>applyMove\<close>
  removes its oldest entry (the head), empties that cell, then writes the new piece at
  \<open>i\<close> and appends \<open>i\<close> to the queue; if the queue is shorter than \<open>n\<close>, nothing is removed
  and no other cell changes. The other player's queue is unchanged in both cases. (The
  evicted cell holds the new piece afterwards if the head of the queue is \<open>i\<close> itself; this
  needs a queue that names an empty cell, which no state reached by \<open>play\<close> has.)
\<close>

lemma click_evicts_oldest:
  "legal s i \<Longrightarrow>
   (st_n s \<le> length (at (queues s) p) \<longrightarrow>
      at (queues s) p \<noteq> []
      \<and> at (queues (applyMove s s i p)) p = tl (at (queues s) p) @ [i]
      \<and> board (applyMove s s i p)
          = js_set (js_set (board s) (hd (at (queues s) p)) None) i
              (Some \<lparr>player = p, label = at (nextLabel s) p\<rparr>)
      \<and> (hd (at (queues s) p) \<noteq> i \<longrightarrow>
            cell (board (applyMove s s i p)) (hd (at (queues s) p)) = None)
      \<and> (\<forall>j. j \<noteq> i \<and> j \<noteq> hd (at (queues s) p) \<longrightarrow>
            cell (board (applyMove s s i p)) j = cell (board s) j))
   \<and> (length (at (queues s) p) < st_n s \<longrightarrow>
      at (queues (applyMove s s i p)) p = at (queues s) p @ [i]
      \<and> board (applyMove s s i p)
          = js_set (board s) i (Some \<lparr>player = p, label = at (nextLabel s) p\<rparr>)
      \<and> (\<forall>j. j \<noteq> i \<longrightarrow> cell (board (applyMove s s i p)) j = cell (board s) j))
   \<and> at (queues (applyMove s s i p)) (if p = P1 then P2 else P1)
        = at (queues s) (if p = P1 then P2 else P1)"
proof -
  assume "legal s i"
  then have n: "0 < st_n s" by (rule legal_size)
  have ne: "st_n s \<le> length (at (queues s) p) \<Longrightarrow> at (queues s) p \<noteq> []"
    using n by auto
  show ?thesis
    using ne by (cases p) (simp_all add: applyMove_board applyMove_queues at_put cell_js_set)
qed

lemma click_evicts_oldest_example:
  "legal full_queues 2 \<and> st_n full_queues \<le> length (at (queues full_queues) P1)
   \<and> at (queues full_queues) P1 = [0, 1, 5]
   \<and> at (queues (applyMove full_queues full_queues 2 P1)) P1 = [1, 5, 2]
   \<and> cell (board (applyMove full_queues full_queues 2 P1)) 0 = None
   \<and> at (queues (applyMove full_queues full_queues 2 P1)) P2 = [3, 4, 8]
   \<and> legal (empty_state 3) 4 \<and> length (at (queues (empty_state 3)) P2) < st_n (empty_state 3)
   \<and> at (queues (applyMove (empty_state 3) (empty_state 3) 4 P2)) P2 = [4]"
proof -
  have l: "legal full_queues 2" by code_simp
  have q: "at (queues full_queues) P1 = [0, 1, 5]" "at (queues full_queues) P2 = [3, 4, 8]"
    by (simp_all add: full_queues_def)
  have n: "st_n full_queues = 3" by (simp add: full_queues_def)
  have l': "legal (empty_state 3) 4" by code_simp
  have q': "at (queues (empty_state 3)) P2 = []" "st_n (empty_state 3) = 3"
    by (simp_all add: empty_state_def)
  from click_evicts_oldest[OF l, of P1] click_evicts_oldest[OF l', of P2] l l' q n q'
  show ?thesis by (simp add: cell_js_set)
qed

text \<open>
  Labels. Along every sequence of legal moves from the empty game of size \<open>m > 0\<close>, each
  move places one piece of the moving player, and the pieces of player \<open>p\<close>, in the order
  placed, carry the labels \<open>1, 2, ..., m, 1, 2, ...\<close>: the piece number \<open>k\<close> (counted
  from 0) has label \<open>k mod m + 1\<close>, whatever the other player does. One move: the piece
  written by \<open>applyMove\<close> carries the counter of the moving player, whose counter becomes 1
  if it was at least \<open>n\<close> and one more otherwise; the other player's counter is unchanged.
\<close>

lemma click_label_cycle:
  "0 < m \<Longrightarrow> play (empty_state m) ms = Some s \<Longrightarrow>
   map player (placed (empty_state m) ms) = map fst ms
   \<and> (\<forall>k. k < length (filter (\<lambda>pc. player pc = p) (placed (empty_state m) ms)) \<longrightarrow>
         label (filter (\<lambda>pc. player pc = p) (placed (empty_state m) ms) ! k) = k mod m + 1)
   \<and> cell (board (applyMove t t i p)) i = Some \<lparr>player = p, label = at (nextLabel t) p\<rparr>
   \<and> at (nextLabel (applyMove t t i p)) p
        = (if at (nextLabel t) p \<ge> st_n t then 1 else at (nextLabel t) p + 1)
   \<and> at (nextLabel (applyMove t t i p)) (if p = P1 then P2 else P1)
        = at (nextLabel t) (if p = P1 then P2 else P1)"
proof -
  assume m: "0 < m" and "play (empty_state m) ms = Some s"
  from m have r: "labels_in_range (empty_state m)" by (rule labels_in_range_empty)
  have one: "at (nextLabel (empty_state m)) p = 1" by (cases p) (simp_all add: empty_state_def)
  have n: "st_n (empty_state m) = m" by (simp add: empty_state_def)
  have lab: "\<forall>k. k < length (filter (\<lambda>pc. player pc = p) (placed (empty_state m) ms)) \<longrightarrow>
         label (filter (\<lambda>pc. player pc = p) (placed (empty_state m) ms) ! k) = k mod m + 1"
    using placed_labels[OF r, of _ p ms] by (simp add: one n)
  have ctr: "at (nextLabel (applyMove t t i p)) p
        = (if at (nextLabel t) p \<ge> st_n t then 1 else at (nextLabel t) p + 1)"
    by (simp add: applyMove_nextLabel at_put)
  have oth: "at (nextLabel (applyMove t t i p)) (if p = P1 then P2 else P1)
        = at (nextLabel t) (if p = P1 then P2 else P1)"
    by (cases p) (simp_all add: applyMove_nextLabel at_put)
  from placed_players[of "empty_state m" ms] lab applyMove_cell_placed[of t i p] ctr oth
  show ?thesis by (intro conjI)
qed

lemma click_label_cycle_example:
  "0 < (3::nat) \<and> play (empty_state 3) moves_seven = Some after_seven
   \<and> map label (filter (\<lambda>pc. player pc = P1) (placed (empty_state 3) moves_seven)) = [1, 2, 3, 1]
   \<and> label (filter (\<lambda>pc. player pc = P1) (placed (empty_state 3) moves_seven) ! 3) = 3 mod 3 + 1
   \<and> map player (placed (empty_state 3) moves_seven) = [P1, P2, P1, P2, P1, P2, P1]"
proof -
  have m: "0 < (3::nat)" by simp
  have f: "filter (\<lambda>pc. player pc = P1) (placed (empty_state 3) moves_seven)
      = [\<lparr>player = P1, label = 1\<rparr>, \<lparr>player = P1, label = 2\<rparr>,
         \<lparr>player = P1, label = 3\<rparr>, \<lparr>player = P1, label = 1\<rparr>]" by code_simp
  have ms: "map fst moves_seven = [P1, P2, P1, P2, P1, P2, P1]" by (simp add: moves_seven_def)
  from click_label_cycle[OF m play_moves_seven, of P1] f ms play_moves_seven
  show ?thesis by simp
qed

text \<open>
  Turn and win. \<open>applyMove\<close> records the result of \<open>checkWin\<close> on the board after the
  placement in \<open>win\<close>. If there is no win the turn passes to the other player than the
  one who moved; if there is a win the turn is left as it was. Once \<open>win\<close> is set, a click
  and an attempt (handled by the render that is current) change nothing; \<open>resetGame\<close> and
  a change of the board size clear \<open>win\<close>, and choosing the size the board already has
  changes nothing. (On a guest the whole state, \<open>win\<close> included, is the host's last
  snapshot: see \<open>hydrateFromState_replaces\<close>.)
\<close>

lemma click_turn_and_win:
  "win (applyMove s s i p) = checkWin (board (applyMove s s i p)) (st_n s)
   \<and> (checkWin (board (applyMove s s i p)) (st_n s) = None \<longrightarrow>
        turn (applyMove s s i p) = (if p = P1 then P2 else P1))
   \<and> (checkWin (board (applyMove s s i p)) (st_n s) \<noteq> None \<longrightarrow>
        turn (applyMove s s i p) = turn s)
   \<and> (win s \<noteq> None \<longrightarrow> onCanvasClick ses s ev = (s, []))
   \<and> (win s \<noteq> None \<longrightarrow> on_host_data s s c (Attempt idx) = (s, []))
   \<and> win (fst (resetGame ses s)) = None
   \<and> (m \<noteq> st_n s \<longrightarrow> win (setN s m) = None)
   \<and> setN s (st_n s) = s"
  by (simp add: applyMove_win applyMove_turn onCanvasClick_def on_host_data_def
      resetGame_def setN_def commit_def resize_effect_def)

lemma click_turn_and_win_example:
  "checkWin (board (applyMove before_win before_win 8 P1)) (st_n before_win)
     = Some \<lparr>winner = P1, line = [0, 4, 8]\<rparr>
   \<and> win (applyMove before_win before_win 8 P1) = Some \<lparr>winner = P1, line = [0, 4, 8]\<rparr>
   \<and> turn (applyMove before_win before_win 8 P1) = P1
   \<and> checkWin (board (applyMove before_win before_win 7 P1)) (st_n before_win) = None
   \<and> win (applyMove before_win before_win 7 P1) = None
   \<and> turn (applyMove before_win before_win 7 P1) = P2
   \<and> win (applyMove before_win before_win 8 P1) \<noteq> None
   \<and> onCanvasClick \<lparr>mode = Local, role = None, iAm = P1, connRef = None\<rparr>
        (applyMove before_win before_win 8 P1) (Cell 2 1)
      = (applyMove before_win before_win 8 P1, [])
   \<and> (4::nat) \<noteq> st_n (applyMove before_win before_win 8 P1)
   \<and> win (setN (applyMove before_win before_win 8 P1) 4) = None"
proof -
  have w8: "checkWin (board (applyMove before_win before_win 8 P1)) (st_n before_win)
     = Some \<lparr>winner = P1, line = [0, 4, 8]\<rparr>" by code_simp
  have w7: "checkWin (board (applyMove before_win before_win 7 P1)) (st_n before_win) = None"
    by code_simp
  have t: "turn before_win = P1" by (simp add: before_win_def)
  have n: "st_n (applyMove before_win before_win 8 P1) = 3"
    by (simp add: applyMove_n before_win_def)
  from click_turn_and_win[of before_win 8 P1, where m = 4 and ev = "Cell 2 1"
      and ses = "\<lparr>mode = Local, role = None, iAm = P1, connRef = None\<rparr>"]
    click_turn_and_win[of before_win 7 P1] w8 w7 t n
    click_turn_and_win[of "applyMove before_win before_win 8 P1" _ _
      "\<lparr>mode = Local, role = None, iAm = P1, connRef = None\<rparr>" "Cell 2 1" _ _ 4]
  show ?thesis by simp
qed

section \<open>Invariants of \<open>play\<close>\<close>

text \<open>
  Queue lengths. Along every sequence of legal moves from the empty game of size \<open>m\<close>, after
  every number \<open>k\<close> of its moves (so in every intermediate state and in the final one) both
  queues have at most \<open>m\<close> entries. This holds for every \<open>m\<close>, in particular for \<open>m \<ge> 3\<close>.
\<close>

lemma click_queue_length_bounded:
  "play (empty_state m) ms = Some s \<Longrightarrow> k \<le> length ms \<Longrightarrow>
   \<exists>sk. play (empty_state m) (take k ms) = Some sk
      \<and> length (at (queues sk) P1) \<le> m \<and> length (at (queues sk) P2) \<le> m"
proof -
  assume p: "play (empty_state m) ms = Some s"
  from play_take[OF p, of k] obtain sk where sk: "play (empty_state m) (take k ms) = Some sk" ..
  from play_preserves[of queues_bounded, OF queues_bounded_step queues_bounded_empty sk]
  have "queues_bounded sk" .
  moreover from play_n[OF sk] have "st_n sk = m" by (simp add: empty_state_def)
  ultimately have "length (at (queues sk) P1) \<le> m \<and> length (at (queues sk) P2) \<le> m"
    by (simp add: queues_bounded_def)
  with sk show ?thesis by blast
qed

lemma click_queue_length_bounded_example:
  "play (empty_state 3) moves_seven = Some after_seven \<and> 6 \<le> length moves_seven
   \<and> play (empty_state 3) (take 6 moves_seven) = Some full_queues
   \<and> length (at (queues full_queues) P1) = 3 \<and> length (at (queues full_queues) P2) = 3
   \<and> (\<exists>sk. play (empty_state 3) (take 6 moves_seven) = Some sk
         \<and> length (at (queues sk) P1) \<le> 3 \<and> length (at (queues sk) P2) \<le> 3)"
proof -
  have k: "6 \<le> length moves_seven" by (simp add: moves_seven_def)
  have q: "length (at (queues full_queues) P1) = 3 \<and> length (at (queues full_queues) P2) = 3"
    by (simp add: full_queues_def)
  from click_queue_length_bounded[OF play_moves_seven k] play_moves_seven k play_take_six q
  show ?thesis by simp
qed

text \<open>
  Queues and board. In every state reached from the empty game by \<open>play\<close>, the two queues are
  disjoint, a cell is occupied if and only if its index is in exactly one of them, the
  occupied cells are exactly the indices of the two queues, no queue names an index
  twice, and the queue an index is in is the queue of the owner of the piece there.
\<close>

lemma click_queues_cover_board:
  "play (empty_state m) ms = Some s \<Longrightarrow>
   set (at (queues s) P1) \<inter> set (at (queues s) P2) = {}
   \<and> (\<forall>i. (cell (board s) i \<noteq> None)
          = ((i \<in> set (at (queues s) P1)) \<noteq> (i \<in> set (at (queues s) P2))))
   \<and> {i. cell (board s) i \<noteq> None} = set (at (queues s) P1) \<union> set (at (queues s) P2)
   \<and> distinct (at (queues s) P1) \<and> distinct (at (queues s) P2)
   \<and> (\<forall>i p. (i \<in> set (at (queues s) p)) = (map_option player (cell (board s) i) = Some p))"
proof -
  assume p: "play (empty_state m) ms = Some s"
  from play_preserves[of queues_match_board, OF queues_match_step queues_match_empty p]
  have inv: "queues_match_board s" .
  then have mem: "\<And>i p. (i \<in> set (at (queues s) p)) = (map_option player (cell (board s) i) = Some p)"
    and d: "distinct (at (queues s) P1)" "distinct (at (queues s) P2)"
    by (simp_all add: queues_match_board_def owner_def)
  have occ: "(cell (board s) i \<noteq> None)
      = (i \<in> set (at (queues s) P1) \<or> i \<in> set (at (queues s) P2))" for i
  proof (cases "cell (board s) i")
    case None with mem[of i] show ?thesis by simp
  next
    case (Some pc)
    with mem[of i P1] mem[of i P2] show ?thesis by (cases "player pc") simp_all
  qed
  have dis: "set (at (queues s) P1) \<inter> set (at (queues s) P2) = {}"
    using mem[of _ P1] mem[of _ P2] by auto
  from dis occ have x: "\<forall>i. (cell (board s) i \<noteq> None)
          = ((i \<in> set (at (queues s) P1)) \<noteq> (i \<in> set (at (queues s) P2)))" by auto
  from occ have u: "{i. cell (board s) i \<noteq> None} = set (at (queues s) P1) \<union> set (at (queues s) P2)"
    by auto
  from dis x u d mem show ?thesis by (intro conjI) auto
qed

lemma click_queues_cover_board_example:
  "play (empty_state 3) moves_seven = Some after_seven
   \<and> set (at (queues after_seven) P1) = {1, 5, 2} \<and> set (at (queues after_seven) P2) = {3, 4, 8}
   \<and> set (at (queues after_seven) P1) \<inter> set (at (queues after_seven) P2) = {}
   \<and> {i. cell (board after_seven) i \<noteq> None} = {1, 5, 2, 3, 4, 8}
   \<and> cell (board after_seven) 0 = None"
proof -
  have q: "set (at (queues after_seven) P1) = {1, 5, 2}" "set (at (queues after_seven) P2) = {3, 4, 8}"
    by (simp_all add: after_seven_def)
  have c: "cell (board after_seven) 0 = None" by (simp add: after_seven_def cell_def)
  from click_queues_cover_board[OF play_moves_seven] q c play_moves_seven
  show ?thesis by auto
qed

section \<open>Guest moves applied by the host's data handler\<close>

text \<open>
  The host applies the guest's moves in the data handler that \<open>createRoom\<close> registers once.
  Its \<open>applyMove\<close> reads \<open>n\<close>, \<open>queues\<close> and \<open>nextLabel\<close> of the render in which the room was
  created, whatever the committed state has become. The states of the two example games
  are the ones the handler and the host's clicks produce.
\<close>

lemma guest_moved_once_reached:
  "fst (on_host_data after_first_move after_first_move (connRef host_open) (Attempt (Some 1)))
     = guest_moved_once"
  by code_simp

lemma host_moved_twice_reached:
  "fst (onCanvasClick host_open guest_moved_once (Cell 1 1)) = host_moved_twice"
  by code_simp

lemma stale_second_reached:
  "fst (on_host_data after_first_move host_moved_twice (connRef host_open) (Attempt (Some 2)))
     = stale_second"
  by code_simp

lemma host_won_reached:
  "fst (onCanvasClick host_open stale_second (Cell 2 2)) = host_won"
  by code_simp

lemma stale_full_reached:
  "fst (on_host_data after_seven after_seven (connRef host_open) (Attempt (Some 6)))
     = stale_full"
  by code_simp

lemma four_mid_played: "play (empty_state 4) moves_four = Some four_mid"
  by code_simp

text \<open>
  Claim C4. The claim: when the moving player's queue has at least \<open>n\<close> entries, \<open>applyMove\<close>
  removes its oldest entry, empties that cell and appends the new index. A room is
  created in \<open>after_seven\<close> and the guest's attempt at cell 6 has been applied: the
  committed queue of player 2 is \<open>[4, 8, 6]\<close>, full. The move at cell 7 is legal there. The
  handler applies it with the queue of the room's creation, \<open>[3, 4, 8]\<close>: the committed queue
  becomes \<open>[4, 8, 7]\<close> instead of \<open>[8, 6, 7]\<close>; its oldest entry 4 stays and the piece on cell
  4 stays on the board; the entry 6 is dropped and the piece on cell 6 stays too.
\<close>

theorem stale_attempt_keeps_oldest:
  "legal stale_full 7
   \<and> st_n stale_full \<le> length (at (queues stale_full) P2)
   \<and> at (queues stale_full) P2 = [4, 8, 6]
   \<and> tl (at (queues stale_full) P2) @ [7] = [8, 6, 7]
   \<and> at (queues (fst (on_host_data after_seven stale_full (connRef host_open)
          (Attempt (Some 7))))) P2 = [4, 8, 7]
   \<and> cell (board (fst (on_host_data after_seven stale_full (connRef host_open)
          (Attempt (Some 7))))) 4 = Some \<lparr>player = P2, label = 2\<rparr>
   \<and> cell (board (fst (on_host_data after_seven stale_full (connRef host_open)
          (Attempt (Some 7))))) 6 = Some \<lparr>player = P2, label = 1\<rparr>"
  by code_simp

text \<open>
  Claim C5. The claim: the piece number \<open>k\<close> of a player carries the label
  \<open>((k - 1) mod n) + 1\<close>, and \<open>applyMove\<close> assigns the player's counter and advances it. A
  room is created in \<open>after_first_move\<close>; the guest's first piece (cell 1) has label 1, the
  host has moved, it is the guest's turn and the committed counter of player 2 is 2. The
  move at cell 2 is legal. The handler labels the piece with the counter of the room's
  creation: the guest's second piece has label 1, not 2, and the committed counter is
  still 2 afterwards.
\<close>

theorem stale_attempt_repeats_label:
  "legal host_moved_twice 2 \<and> turn host_moved_twice = P2
   \<and> cell (board host_moved_twice) 1 = Some \<lparr>player = P2, label = 1\<rparr>
   \<and> at (nextLabel host_moved_twice) P2 = 2
   \<and> (2 - 1) mod st_n host_moved_twice + 1 = 2
   \<and> cell (board (fst (on_host_data after_first_move host_moved_twice (connRef host_open)
          (Attempt (Some 2))))) 2 = Some \<lparr>player = P2, label = 1\<rparr>
   \<and> at (nextLabel (fst (on_host_data after_first_move host_moved_twice (connRef host_open)
          (Attempt (Some 2))))) P2 = 2"
  by code_simp

text \<open>
  Claim C6. The claim: a recorded win freezes the turn and is cleared only by a reset or a
  change of the board size. In the same game the host has completed the diagonal
  \<open>[0, 4, 8]\<close> and \<open>win\<close> is recorded. The handler still tests the \<open>win\<close> and the \<open>board\<close> of
  the room's creation, where there is no win and cell 4 is empty: an attempt at cell 4 is
  applied, the winning piece on cell 4 is replaced by a piece of player 2, \<open>checkWin\<close>
  finds no line and \<open>win\<close> is set back to none. The board size has not changed and nothing
  was reset.
\<close>

theorem stale_attempt_clears_win:
  "win host_won = Some \<lparr>winner = P1, line = [0, 4, 8]\<rparr>
   \<and> cell (board host_won) 4 = Some \<lparr>player = P1, label = 2\<rparr>
   \<and> fst (on_host_data after_first_move host_won (connRef host_open) (Attempt (Some 4)))
      = \<lparr>st_n = 3,
         board = [Some \<lparr>player = P1, label = 1\<rparr>, Some \<lparr>player = P2, label = 1\<rparr>,
                  Some \<lparr>player = P2, label = 1\<rparr>, None, Some \<lparr>player = P2, label = 1\<rparr>,
                  None, None, None, Some \<lparr>player = P1, label = 3\<rparr>],
         turn = P1, queues = ([0], [4]), nextLabel = (1, 2), win = None\<rparr>
   \<and> win (fst (on_host_data after_first_move host_won (connRef host_open)
          (Attempt (Some 4)))) = None
   \<and> st_n (fst (on_host_data after_first_move host_won (connRef host_open)
          (Attempt (Some 4)))) = st_n host_won"
  by code_simp

text \<open>
  Claim C7. The claim: after any legal moves from the empty game both queues have at most
  \<open>n\<close> entries. A room is created in the 4 by 4 game \<open>four_mid\<close> (queues of 4 and 3
  entries) and the host then chooses the 3 by 3 board, which gives the empty game of size
  3. The move at cell 7 is legal there. The handler applies it with the \<open>n\<close> and the queues
  of the room's creation: the committed state has \<open>n = 3\<close> and two queues of 4 entries.
\<close>

theorem stale_attempt_overfills_queues:
  "setN four_mid 3 = empty_state 3 \<and> legal (empty_state 3) 7
   \<and> fst (on_host_data four_mid (empty_state 3) (connRef host_open) (Attempt (Some 7)))
      = \<lparr>st_n = 3,
         board = [None, None, None, None, None, None, None,
                  Some \<lparr>player = P2, label = 4\<rparr>, None],
         turn = P1, queues = ([0, 1, 2, 8], [4, 5, 6, 7]), nextLabel = (1, 1), win = None\<rparr>
   \<and> st_n (fst (on_host_data four_mid (empty_state 3) (connRef host_open)
          (Attempt (Some 7)))) = 3
   \<and> length (at (queues (fst (on_host_data four_mid (empty_state 3) (connRef host_open)
          (Attempt (Some 7))))) P1) = 4
   \<and> length (at (queues (fst (on_host_data four_mid (empty_state 3) (connRef host_open)
          (Attempt (Some 7))))) P2) = 4"
  by code_simp

text \<open>
  Claim C8. The claim: a cell is occupied if and only if its index is in exactly one of
  the two queues. In the game whose room is created in \<open>after_first_move\<close>, before the guest's second move the queues are
  \<open>[0, 4]\<close> and \<open>[1]\<close> and match the board. The handler rebuilds both queues from those of
  the room's creation: after the legal move at cell 2 the queues are \<open>[0]\<close> and \<open>[2]\<close>, while
  cells 1 and 4 still hold their pieces and are in neither queue.
\<close>

theorem stale_attempt_orphans_cells:
  "legal host_moved_twice 2 \<and> turn host_moved_twice = P2
   \<and> queues host_moved_twice = ([0, 4], [1])
   \<and> queues (fst (on_host_data after_first_move host_moved_twice (connRef host_open)
          (Attempt (Some 2)))) = ([0], [2])
   \<and> cell (board (fst (on_host_data after_first_move host_moved_twice (connRef host_open)
          (Attempt (Some 2))))) 1 = Some \<lparr>player = P2, label = 1\<rparr>
   \<and> cell (board (fst (on_host_data after_first_move host_moved_twice (connRef host_open)
          (Attempt (Some 2))))) 4 = Some \<lparr>player = P1, label = 2\<rparr>
   \<and> 1 \<notin> set (at (queues (fst (on_host_data after_first_move host_moved_twice (connRef host_open)
          (Attempt (Some 2))))) P1)
   \<and> 1 \<notin> set (at (queues (fst (on_host_data after_first_move host_moved_twice (connRef host_open)
          (Attempt (Some 2))))) P2)
   \<and> 4 \<notin> set (at (queues (fst (on_host_data after_first_move host_moved_twice (connRef host_open)
          (Attempt (Some 2))))) P1)
   \<and> 4 \<notin> set (at (queues (fst (on_host_data after_first_move host_moved_twice (connRef host_open)
          (Attempt (Some 2))))) P2)"
  by code_simp

section \<open>Sending\<close>

text \<open>
  Claim C9. The claim: every send, the guest's attempts included, is preceded by a check
  that the channel is open, and is skipped if it is not. \<open>broadcastState\<close> has this check
  (\<open>broadcastState_guarded\<close> above). The click handler of a guest sends with
  \<open>connRef.current?.send(...)\<close>, which tests only that a connection exists: a guest whose
  connection is not open, clicking the empty cell in row 1, column 1 on its turn, calls
  \<open>send\<close> with \<open>Attempt{index: 4}\<close>, where \<open>broadcastState\<close> on the same connection sends
  nothing.
\<close>

theorem guest_attempt_sent_on_closed_channel:
  "connRef guest_closed = Some \<lparr>conn_open = False\<rparr>
   \<and> onCanvasClick guest_closed after_first_move (Cell 1 1)
      = (after_first_move, [Attempt (Some 4)])
   \<and> broadcastState (connRef guest_closed) after_first_move = []"
  by code_simp

text \<open>
  Claim C10. \<open>hydrateFromState\<close> called with \<open>null\<close> or \<open>undefined\<close> returns before any setter
  is called: the state is unchanged, in every field, and so is the state of a guest that
  receives a state message without a payload (no variable changes, so no effect runs).
\<close>

theorem hydrate_null_noop:
  "hydrateFromState None s = s \<and> on_guest_data s (StateMsg None) = s"
  by (simp add: hydrateFromState_def on_guest_data_def commit_def)

end
